theory Spec2Isabelle
  imports
    Main
    "HOL-Library.Char_ord"
    "HOL-Library.List_Lexorder"
    "HOL-Library.Sublist"
begin

section \<open>Go library functions used by the packages\<close>

text \<open>
  Go strings are byte sequences; they are modelled as \<open>string\<close> (a list of 8-bit
  characters), and \<open>[]byte(s)\<close> / \<open>string(b)\<close> conversions are the identity.
  Go's \<open>int\<close> is taken as the 64-bit type of the usual build targets.
\<close>

subsection \<open>strconv.Itoa and strconv.Atoi\<close>

definition digit_char :: "nat \<Rightarrow> char" where
  "digit_char d = ''0123456789'' ! (d mod 10)"

fun nat_digits :: "nat \<Rightarrow> string" where
  "nat_digits n = (if n < 10 then [digit_char n] else nat_digits (n div 10) @ [digit_char (n mod 10)])"

declare nat_digits.simps [simp del]

definition Itoa :: "int \<Rightarrow> string" where
  "Itoa i = (if i < 0 then CHR ''-'' # nat_digits (nat (- i)) else nat_digits (nat i))"

definition is_digit :: "char \<Rightarrow> bool" where
  "is_digit c = (c \<in> set ''0123456789'')"

definition digit_val :: "char \<Rightarrow> nat" where
  "digit_val c = of_char c - 48"

definition maxInt64 :: int where
  "maxInt64 = 9223372036854775807"

definition minInt64 :: int where
  "minInt64 = - 9223372036854775808"

definition maxUint64 :: nat where
  "maxUint64 = 18446744073709551615"

text \<open>
  Arithmetic on Go's \<open>int\<close> wraps around: \<open>int64 x\<close> is the value of the 64-bit type
  that the mathematical result \<open>x\<close> is stored as.
\<close>

definition int64 :: "int \<Rightarrow> int" where
  "int64 x = (x + 9223372036854775808) mod 18446744073709551616 - 9223372036854775808"

text \<open>
  The digit loop of \<open>strconv.ParseUint\<close> in base 10 for 64 bits, which \<open>Atoi\<close> runs
  after the sign (its fast path for short inputs computes the same). The bytes are read
  from the left: a byte that is not a decimal digit ends the loop with a syntax error,
  and a digit that takes the number past the largest unsigned value ends it with a
  range error, whatever bytes follow.
\<close>

datatype parse_result = SyntaxError | RangeError | Parsed nat

fun ParseUint :: "nat \<Rightarrow> string \<Rightarrow> parse_result" where
  "ParseUint n [] = Parsed n"
| "ParseUint n (c # cs) =
     (if \<not> is_digit c then SyntaxError
      else if n \<ge> maxUint64 div 10 + 1 then RangeError
      else if n * 10 + digit_val c > maxUint64 then RangeError
      else ParseUint (n * 10 + digit_val c) cs)"

text \<open>
  \<open>strconv.Atoi\<close> returns a value and an error. The value is 0 on a syntax error
  (empty input, a lone sign, a non-digit) and the nearest bound of the 64-bit range on
  a range error; an optional leading \<open>+\<close> or \<open>-\<close> is accepted.
  The second component tells whether the error is non-nil.
\<close>

definition Atoi :: "string \<Rightarrow> int \<times> bool" where
  "Atoi s =
     (case s of
        [] \<Rightarrow> (0, True)
      | c # cs \<Rightarrow>
          (let neg = (c = CHR ''-'');
               ds = (if c = CHR ''-'' \<or> c = CHR ''+'' then cs else s)
           in if ds = [] then (0, True)
              else (case ParseUint 0 ds of
                      SyntaxError \<Rightarrow> (0, True)
                    | RangeError \<Rightarrow> (if neg then minInt64 else maxInt64, True)
                    | Parsed n \<Rightarrow>
                        if neg then (if int n > - minInt64 then (minInt64, True) else (- int n, False))
                        else (if int n > maxInt64 then (maxInt64, True) else (int n, False)))))"

subsection \<open>strings.NewReplacer(...).Replace\<close>

text \<open>
  A replacer scans the input once from left to right. At each position the
  old strings are compared in argument order and the first one that matches is
  replaced; the scan resumes after the match, so replaced text is never scanned
  again. Every old string the handlers use is a non-empty literal, and
  a pair with an empty old string is never matched here.
\<close>

fun find_match :: "(string \<times> string) list \<Rightarrow> string \<Rightarrow> (string \<times> string) option" where
  "find_match [] s = None"
| "find_match ((old, new) # ps) s =
     (if old \<noteq> [] \<and> prefix old s then Some (old, new) else find_match ps s)"

fun Replace :: "(string \<times> string) list \<Rightarrow> string \<Rightarrow> string" where
  "Replace ps [] = []"
| "Replace ps (c # cs) =
     (case find_match ps (c # cs) of
        Some (old, new) \<Rightarrow> new @ Replace ps (drop (length old - 1) cs)
      | None \<Rightarrow> c # Replace ps cs)"

subsection \<open>strings.TrimPrefix\<close>

definition TrimPrefix :: "string \<Rightarrow> string \<Rightarrow> string" where
  "TrimPrefix s p = (if prefix p s then drop (length p) s else s)"

section \<open>mq: the failure handler\<close>

subsection \<open>Messages and headers\<close>

record Header =
  Key :: string
  Value :: string

record kafka_Message =
  Topic :: string
  Partition :: int
  Offset :: int
  MsgKey :: string
  MsgValue :: string
  Headers :: "Header list"

definition HeaderOriginalTopic :: string where
  "HeaderOriginalTopic = ''dlt-original-topic''"

definition HeaderOriginalPartition :: string where
  "HeaderOriginalPartition = ''dlt-original-partition''"

definition HeaderOriginalOffset :: string where
  "HeaderOriginalOffset = ''dlt-original-offset''"

definition HeaderExceptionFqcn :: string where
  "HeaderExceptionFqcn = ''dlt-exception-fqcn''"

definition HeaderExceptionMessage :: string where
  "HeaderExceptionMessage = ''dlt-exception-message''"

definition HeaderExceptionStacktrace :: string where
  "HeaderExceptionStacktrace = ''dlt-exception-stacktrace''"

definition HeaderRetryCount :: string where
  "HeaderRetryCount = ''retry-count''"

text \<open>
  A Go \<open>error\<close> value is \<open>nil\<close> (\<open>None\<close>) or an object with a dynamic
  type, printed by \<open>%T\<close>, and a text, returned by \<open>Error()\<close>.
\<close>

record go_error =
  TypeName :: string
  ErrorText :: string

record ResilienceConfig =
  Enabled :: bool
  RetryDelays :: "int list"
  RetryTopicTemplate :: string
  DltTopicTemplate :: string
  retryableExceptions :: "string set"
  RetryableExceptions :: "string list"

text \<open>
  \<open>NewFailureHandler\<close> turns the configured list of retryable error texts into the set
  \<open>isRetryable\<close> looks up, and clears the list. The handler is identified with this
  configuration; its cache of writers, one per target topic, has no part in what is
  published where.
\<close>

definition NewFailureHandler :: "ResilienceConfig \<Rightarrow> ResilienceConfig" where
  "NewFailureHandler config =
     config\<lparr>RetryableExceptions := [],
            retryableExceptions := set (RetryableExceptions config)\<rparr>"

text \<open>\<open>getHeaderValue\<close>: the value of the first header with the key, else the empty string.\<close>

fun getHeaderValue :: "Header list \<Rightarrow> string \<Rightarrow> string" where
  "getHeaderValue [] k = []"
| "getHeaderValue (h # hs) k = (if Key h = k then Value h else getHeaderValue hs k)"

definition isRetryable :: "ResilienceConfig \<Rightarrow> go_error option \<Rightarrow> bool" where
  "isRetryable config err =
     (case err of None \<Rightarrow> False | Some e \<Rightarrow> ErrorText e \<in> retryableExceptions config)"

definition prepareMessage ::
  "kafka_Message \<Rightarrow> go_error option \<Rightarrow> int \<Rightarrow> string \<Rightarrow> kafka_Message" where
  "prepareMessage original err retryCount baseTopic =
     \<lparr> Topic = [], Partition = 0, Offset = 0,
       MsgKey = MsgKey original,
       MsgValue = MsgValue original,
       Headers =
         filter (\<lambda>h. Key h \<noteq> HeaderRetryCount) (Headers original)
         @ [\<lparr>Key = HeaderRetryCount, Value = Itoa retryCount\<rparr>,
            \<lparr>Key = HeaderOriginalTopic, Value = baseTopic\<rparr>,
            \<lparr>Key = HeaderOriginalPartition, Value = Itoa (Partition original)\<rparr>,
            \<lparr>Key = HeaderOriginalOffset, Value = Itoa (Offset original)\<rparr>]
         @ (case err of
              None \<Rightarrow> []
            | Some e \<Rightarrow>
                [\<lparr>Key = HeaderExceptionFqcn, Value = TypeName e\<rparr>,
                 \<lparr>Key = HeaderExceptionMessage, Value = ErrorText e\<rparr>,
                 \<lparr>Key = HeaderExceptionStacktrace, Value = ''stacktrace not implemented''\<rparr>]) \<rparr>"

text \<open>
  The outcome of \<open>Handle\<close>: it returns at once when resilience is disabled,
  it panics when \<open>RetryDelays\<close> is indexed out of range, and otherwise it hands the
  prepared message to the writer of the target topic.
\<close>

datatype handle_result =
    Disabled
  | IndexPanic int
  | Published string kafka_Message

definition baseTopicOf :: "kafka_Message \<Rightarrow> string" where
  "baseTopicOf originalMsg =
     (let baseTopic = getHeaderValue (Headers originalMsg) HeaderOriginalTopic
      in if baseTopic = [] then Topic originalMsg else baseTopic)"

definition Handle :: "ResilienceConfig \<Rightarrow> kafka_Message \<Rightarrow> go_error option \<Rightarrow> handle_result" where
  "Handle config originalMsg err =
     (if \<not> Enabled config then Disabled
      else
        let retryCount = fst (Atoi (getHeaderValue (Headers originalMsg) HeaderRetryCount));
            maxRetries = int (length (RetryDelays config));
            baseTopic = baseTopicOf originalMsg
        in if isRetryable config err \<and> retryCount < maxRetries then
             (if retryCount < 0 then IndexPanic retryCount
              else
                let delay = RetryDelays config ! nat retryCount;
                    targetTopic =
                      Replace [(''{topic}'', baseTopic), (''{delaySec}'', Itoa delay)]
                        (RetryTopicTemplate config)
                in Published targetTopic (prepareMessage originalMsg err (retryCount + 1) baseTopic))
           else
             Published
               (Replace [(''{topic}'', baseTopic)] (DltTopicTemplate config))
               (prepareMessage originalMsg err retryCount baseTopic))"

section \<open>transactional: the outbox store and service\<close>

subsection \<open>The message table\<close>

datatype Status = StatusPending | StatusSent | StatusFailed

text \<open>
  A row of \<open>transactional_messages\<close>. The fields \<open>Topic\<close> and \<open>Key\<close> of the Go
  struct are written \<open>OutTopic\<close> and \<open>OutKey\<close>, the names without prefix being those of
  the broker message above. Timestamps are nanoseconds. The retry count is a Go \<open>int\<close>;
  what is added to it is stored as \<open>int64\<close> says.
\<close>

record Message =
  ID :: int
  OutTopic :: string
  OutKey :: string
  Payload :: string
  Status :: Status
  RetryCount :: int
  CreatedAt :: int
  UpdatedAt :: int

text \<open>
  The two statements the store issues: an INSERT of a row, and the UPDATE of
  \<open>UpdateStatus\<close>, which sets status and retry count of the rows with the given id
  (gorm also refreshes the \<open>autoUpdateTime\<close> column).
\<close>

datatype db_op =
    Insert Message
  | Update int Status int int

fun apply_op :: "db_op \<Rightarrow> Message list \<Rightarrow> Message list" where
  "apply_op (Insert m) table = table @ [m]"
| "apply_op (Update i st rc now) table =
     map (\<lambda>m. if ID m = i then m\<lparr>Status := st, RetryCount := rc, UpdatedAt := now\<rparr> else m) table"

fun apply_ops :: "db_op list \<Rightarrow> Message list \<Rightarrow> Message list" where
  "apply_ops [] table = table"
| "apply_ops (op # ops) table = apply_ops ops (apply_op op table)"

text \<open>
  The database: the committed rows, the statements of the caller's open transaction
  that are not committed yet, and the AUTO_INCREMENT counter. A \<open>*gorm.DB\<close> handle is
  either the connection (every statement commits at once) or the open transaction.
\<close>

record database =
  rows :: "Message list"
  pending :: "db_op list"
  next_id :: int

datatype gorm_DB = Conn | Tx

definition visible :: "gorm_DB \<Rightarrow> database \<Rightarrow> Message list" where
  "visible h d = (case h of Conn \<Rightarrow> rows d | Tx \<Rightarrow> apply_ops (pending d) (rows d))"

definition exec :: "gorm_DB \<Rightarrow> db_op \<Rightarrow> database \<Rightarrow> database" where
  "exec h op d =
     (case h of
        Conn \<Rightarrow> d\<lparr>rows := apply_op op (rows d)\<rparr>
      | Tx \<Rightarrow> d\<lparr>pending := pending d @ [op]\<rparr>)"

definition tx_commit :: "database \<Rightarrow> database" where
  "tx_commit d = d\<lparr>rows := apply_ops (pending d) (rows d), pending := []\<rparr>"

definition tx_rollback :: "database \<Rightarrow> database" where
  "tx_rollback d = d\<lparr>pending := []\<rparr>"

datatype store_error = StoreError

text \<open>
  \<open>db.Create(msg)\<close>: a zero primary key is filled from the counter and zero
  \<open>autoCreateTime\<close>/\<open>autoUpdateTime\<close> columns with the current time. The flag
  \<open>fails\<close> says that the database reports an error; nothing is written then.
\<close>

definition gorm_Create ::
  "gorm_DB \<Rightarrow> Message \<Rightarrow> int \<Rightarrow> bool \<Rightarrow> database \<Rightarrow> store_error option \<times> database" where
  "gorm_Create h msg now fails d =
     (if fails then (Some StoreError, d)
      else
        let i = (if ID msg = 0 then next_id d else ID msg);
            row = msg\<lparr>ID := i,
                      CreatedAt := (if CreatedAt msg = 0 then now else CreatedAt msg),
                      UpdatedAt := (if UpdatedAt msg = 0 then now else UpdatedAt msg)\<rparr>
        in (None, exec h (Insert row) (d\<lparr>next_id := max (next_id d) i + 1\<rparr>)))"

text \<open>\<open>Limit(n)\<close>: a negative number cancels the LIMIT clause.\<close>

definition gorm_Limit :: "int \<Rightarrow> 'a list \<Rightarrow> 'a list" where
  "gorm_Limit n xs = (if n < 0 then xs else take (nat n) xs)"

subsection \<open>gormStore\<close>

record gormStore =
  db :: gorm_DB

definition Minute :: int where
  "Minute = 60000000000"

text \<open>
  \<open>CreateInTx(ctx, msg)\<close> has no parameter for a transaction handle: it creates
  the row through the store's own \<open>s.db\<close>.
\<close>

definition CreateInTx ::
  "gormStore \<Rightarrow> Message \<Rightarrow> int \<Rightarrow> bool \<Rightarrow> database \<Rightarrow> store_error option \<times> database" where
  "CreateInTx s msg now fails d = gorm_Create (db s) msg now fails d"

definition FindPendingMessages ::
  "gormStore \<Rightarrow> int \<Rightarrow> int \<Rightarrow> bool \<Rightarrow> database \<Rightarrow> store_error + Message list" where
  "FindPendingMessages s now limit fails d =
     (if fails then Inl StoreError
      else Inr (gorm_Limit limit
              (sort_key ID
                (filter (\<lambda>m. Status m = StatusPending \<and> UpdatedAt m < now - Minute)
                  (visible (db s) d)))))"

definition UpdateStatus ::
  "gormStore \<Rightarrow> int \<Rightarrow> Status \<Rightarrow> int \<Rightarrow> int \<Rightarrow> bool \<Rightarrow> database \<Rightarrow> store_error option \<times> database" where
  "UpdateStatus s i status newRetryCount now fails d =
     (if fails then (Some StoreError, d)
      else (None, exec (db s) (Update i status newRetryCount now) d))"

subsection \<open>Service\<close>

record Service =
  store :: gormStore

text \<open>
  \<open>SendInTx\<close> builds the row with status PENDING (the retry count, the key and the
  timestamps keep Go's zero values) and passes it, with \<open>tx\<close>, to the store's
  \<open>CreateInTx\<close>; the store's method takes the context and the message only, so the
  handle \<open>tx\<close> does not reach the insert.
\<close>

definition SendInTx ::
  "Service \<Rightarrow> gorm_DB \<Rightarrow> string \<Rightarrow> string \<Rightarrow> string \<Rightarrow> int \<Rightarrow> bool \<Rightarrow> database
     \<Rightarrow> store_error option \<times> database" where
  "SendInTx s tx topic key payload now fails d =
     CreateInTx (store s)
       \<lparr>ID = 0, OutTopic = topic, OutKey = key, Payload = payload, Status = StatusPending,
        RetryCount = 0, CreatedAt = 0, UpdatedAt = 0\<rparr>
       now fails d"

text \<open>
  What one forwarding cycle meets outside the program: whether the query fails, the
  headers the trace propagator injects, and for the n-th record of the batch whether the
  broker write and the status update fail. The clock reading \<open>now\<close> is the same
  throughout a cycle.
\<close>

record forward_env =
  find_fails :: bool
  trace_headers :: "Header list"
  write_fails :: "nat \<Rightarrow> kafka_Message \<Rightarrow> bool"
  update_fails :: "nat \<Rightarrow> bool"

definition forward_message :: "forward_env \<Rightarrow> Message \<Rightarrow> kafka_Message" where
  "forward_message env msg =
     \<lparr>Topic = OutTopic msg, Partition = 0, Offset = 0, MsgKey = OutKey msg,
      MsgValue = Payload msg, Headers = trace_headers env\<rparr>"

fun forward_loop ::
  "gormStore \<Rightarrow> forward_env \<Rightarrow> int \<Rightarrow> nat \<Rightarrow> Message list \<Rightarrow> database \<Rightarrow> database" where
  "forward_loop s env now n [] d = d"
| "forward_loop s env now n (msg # msgs) d =
     forward_loop s env now (Suc n) msgs
       (if write_fails env n (forward_message env msg)
        then snd (UpdateStatus s (ID msg) StatusPending (int64 (RetryCount msg + 1)) now (update_fails env n) d)
        else snd (UpdateStatus s (ID msg) StatusSent (RetryCount msg) now (update_fails env n) d))"

definition ForwardPendingMessages ::
  "Service \<Rightarrow> forward_env \<Rightarrow> int \<Rightarrow> database \<Rightarrow> store_error option \<times> database" where
  "ForwardPendingMessages s env now d =
     (case FindPendingMessages (store s) now 100 (find_fails env) d of
        Inl err \<Rightarrow> (Some err, d)
      | Inr messages \<Rightarrow>
          if length messages = 0 then (None, d)
          else (None, forward_loop (store s) env now 0 messages d))"

text \<open>The states the pipeline and the caller's transaction can reach from a state.\<close>

inductive reachable :: "database \<Rightarrow> database \<Rightarrow> bool" for d0 :: database where
  start: "reachable d0 d0"
| send: "reachable d0 d \<Longrightarrow> reachable d0 (snd (SendInTx s tx topic key payload now fails d))"
| forward: "reachable d0 d \<Longrightarrow> reachable d0 (snd (ForwardPendingMessages s env now d))"
| commit: "reachable d0 d \<Longrightarrow> reachable d0 (tx_commit d)"
| rollback: "reachable d0 d \<Longrightarrow> reachable d0 (tx_rollback d)"

fun op_status_ok :: "db_op \<Rightarrow> bool" where
  "op_status_ok (Insert m) = (Status m \<noteq> StatusFailed)"
| "op_status_ok (Update i st rc now) = (st \<noteq> StatusFailed)"

definition no_failed :: "database \<Rightarrow> bool" where
  "no_failed d =
     (list_all (\<lambda>m. Status m \<noteq> StatusFailed) (rows d) \<and> list_all op_status_ok (pending d))"

section \<open>zookeeper: the distributed lock\<close>

text \<open>
  The connection type \<open>Conn\<close> and the coordination service behind it are not part of
  the lock's file; what its calls return is given to the model as the replies of
  the service. Only the error value \<open>zk.ErrNoNode\<close> is told apart by the lock.
\<close>

datatype zk_error = ErrNoNode | ErrNodeExists | ErrOther string

datatype EventType =
    EventNodeCreated
  | EventNodeDeleted
  | EventNodeDataChanged
  | EventNodeChildrenChanged
  | EventSession
  | EventNotWatching

record DistributedLock =
  path :: string
  lockNode :: string

datatype lock_error =
    CreateFailed zk_error
  | ChildrenFailed zk_error
  | CannotFindPrevious
  | WatchFailed zk_error
  | LockTimeout
  | NoLockToUnlock
  | DeleteFailed zk_error

text \<open>
  One pass through the loop of \<open>Lock\<close> meets: the reply of \<open>Children\<close> (an error or
  the names of the children), the reply of \<open>ExistsW\<close> (an error, or the boolean that
  tells whether the node exists, together with the event channel), and what the
  \<open>select\<close> receives first: an event of the channel, or nothing before the
  30 seconds are over.
\<close>

record zk_round =
  children_reply :: "zk_error + string list"
  existsW_reply :: "zk_error + bool"
  wait_reply :: "EventType option"

text \<open>The steps 2 to 4 of the loop, up to the choice of the node to watch.\<close>

datatype lock_step =
    Acquire
  | Watch string
  | NotFound
  | IndexOutOfRange

fun prevNodeIndex :: "string \<Rightarrow> string list \<Rightarrow> int \<Rightarrow> int" where
  "prevNodeIndex myNodeName [] i = - 1"
| "prevNodeIndex myNodeName (child # children) i =
     (if child = myNodeName then i - 1 else prevNodeIndex myNodeName children (i + 1))"

definition lock_step :: "DistributedLock \<Rightarrow> string list \<Rightarrow> lock_step" where
  "lock_step l children0 =
     (let children = sort children0;
          myNodeName = TrimPrefix (lockNode l) (path l @ ''/'')
      in case children of
           [] \<Rightarrow> IndexOutOfRange
         | first # _ \<Rightarrow>
             if myNodeName = first then Acquire
             else
               let p = prevNodeIndex myNodeName children 0
               in if p < 0 then NotFound
                  else Watch (path l @ ''/'' @ children ! nat p))"

datatype lock_outcome =
    Returns "lock_error option"
  | Panics

text \<open>
  The loop, run against the replies of its successive passes. \<open>None\<close> says that the
  replies given are used up and the loop is still running. Whatever event arrives on
  the channel, the loop starts over; only the timer ends the wait with an error.
\<close>

fun Lock_loop :: "DistributedLock \<Rightarrow> zk_round list \<Rightarrow> lock_outcome option" where
  "Lock_loop l [] = None"
| "Lock_loop l (r # rs) =
     (case children_reply r of
        Inl err \<Rightarrow> Some (Returns (Some (ChildrenFailed err)))
      | Inr children \<Rightarrow>
          (case lock_step l children of
             IndexOutOfRange \<Rightarrow> Some Panics
           | Acquire \<Rightarrow> Some (Returns None)
           | NotFound \<Rightarrow> Some (Returns (Some CannotFindPrevious))
           | Watch prevNodePath \<Rightarrow>
               (case existsW_reply r of
                  Inl err \<Rightarrow>
                    if err = ErrNoNode then Lock_loop l rs
                    else Some (Returns (Some (WatchFailed err)))
                | Inr exists \<Rightarrow>
                    (case wait_reply r of
                       Some event \<Rightarrow> Lock_loop l rs
                     | None \<Rightarrow> Some (Returns (Some LockTimeout))))))"

definition Lock ::
  "DistributedLock \<Rightarrow> zk_error + string \<Rightarrow> zk_round list \<Rightarrow> lock_outcome option \<times> DistributedLock" where
  "Lock l create_reply rounds =
     (case create_reply of
        Inl err \<Rightarrow> (Some (Returns (Some (CreateFailed err))), l)
      | Inr nodePath \<Rightarrow> (Lock_loop (l\<lparr>lockNode := nodePath\<rparr>) rounds, l\<lparr>lockNode := nodePath\<rparr>))"

text \<open>
  \<open>conn.Delete(path, -1)\<close> on the nodes of the service: a transport failure leaves
  the nodes as they are, a missing node is reported as \<open>ErrNoNode\<close>.
\<close>

definition zk_Delete :: "zk_error option \<Rightarrow> string \<Rightarrow> string list \<Rightarrow> zk_error option \<times> string list" where
  "zk_Delete failure p nodes =
     (case failure of
        Some err \<Rightarrow> (Some err, nodes)
      | None \<Rightarrow> if p \<in> set nodes then (None, removeAll p nodes) else (Some ErrNoNode, nodes))"

definition Unlock ::
  "DistributedLock \<Rightarrow> zk_error option \<Rightarrow> string list
     \<Rightarrow> lock_error option \<times> DistributedLock \<times> string list" where
  "Unlock l failure nodes =
     (if lockNode l = [] then (Some NoLockToUnlock, l, nodes)
      else
        case zk_Delete failure (lockNode l) nodes of
          (Some err, nodes') \<Rightarrow>
            if err \<noteq> ErrNoNode then (Some (DeleteFailed err), l, nodes')
            else (None, l\<lparr>lockNode := []\<rparr>, nodes')
        | (None, nodes') \<Rightarrow> (None, l\<lparr>lockNode := []\<rparr>, nodes'))"

text \<open>
  The sequence number of a sequential node: the coordination service appends it to the
  name as ten decimal digits.
\<close>

definition sequence_suffix :: "string \<Rightarrow> nat" where
  "sequence_suffix name =
     (case ParseUint 0 (drop (length name - 10) name) of Parsed n \<Rightarrow> n | _ \<Rightarrow> 0)"

section \<open>Auxiliary notions and example inputs\<close>

text \<open>
  The retry count \<open>Handle\<close> writes into the outgoing message: the count read from
  the incoming header, plus one when the message is retried.
\<close>

definition new_retry_count :: "ResilienceConfig \<Rightarrow> kafka_Message \<Rightarrow> go_error option \<Rightarrow> int" where
  "new_retry_count config m err =
     (let retryCount = fst (Atoi (getHeaderValue (Headers m) HeaderRetryCount))
      in if isRetryable config err \<and> retryCount < int (length (RetryDelays config))
         then retryCount + 1 else retryCount)"

text \<open>The headers of a list that describe an exception.\<close>

definition exception_headers :: "Header list \<Rightarrow> Header list" where
  "exception_headers hs =
     filter (\<lambda>h. Key h = HeaderExceptionFqcn \<or> Key h = HeaderExceptionMessage
                \<or> Key h = HeaderExceptionStacktrace) hs"

text \<open>A handler with the retry delays 5, 30 and 120 seconds, and a message of topic \<open>orders\<close>.\<close>

definition example_config :: ResilienceConfig where
  "example_config =
     NewFailureHandler
       \<lparr>Enabled = True, RetryDelays = [5, 30, 120],
        RetryTopicTemplate = ''{topic}.retry.{delaySec}s'',
        DltTopicTemplate = ''{topic}.dlt'',
        retryableExceptions = {},
        RetryableExceptions = [''timeout'']\<rparr>"

definition example_error :: go_error where
  "example_error = \<lparr>TypeName = ''*errors.errorString'', ErrorText = ''timeout''\<rparr>"

definition example_message :: "Header list \<Rightarrow> kafka_Message" where
  "example_message hs =
     \<lparr>Topic = ''orders'', Partition = 3, Offset = 42, MsgKey = ''k'', MsgValue = ''v'', Headers = hs\<rparr>"


text \<open>
  A store on the connection, a table with one pending row that was last updated two
  minutes before the clock reading used, and a broker that is up or down.
\<close>

definition example_row :: Message where
  "example_row =
     \<lparr>ID = 1, OutTopic = ''orders'', OutKey = ''k'', Payload = ''p'', Status = StatusPending,
      RetryCount = 0, CreatedAt = 0, UpdatedAt = 0\<rparr>"

definition example_database :: database where
  "example_database = \<lparr>rows = [example_row], pending = [], next_id = 2\<rparr>"

definition example_service :: Service where
  "example_service = \<lparr>store = \<lparr>db = Conn\<rparr>\<rparr>"

definition example_now :: int where
  "example_now = 120000000000"

definition example_env :: "bool \<Rightarrow> forward_env" where
  "example_env broker_down =
     \<lparr>find_fails = False, trace_headers = [], write_fails = (\<lambda>n m. broker_down),
      update_fails = (\<lambda>n. False)\<rparr>"

text \<open>
  A table whose only row has the largest retry count of the type, and a table of 101
  pending rows that were all last updated two minutes ago.
\<close>

definition example_saturated :: database where
  "example_saturated =
     \<lparr>rows = [example_row\<lparr>RetryCount := maxInt64\<rparr>], pending = [], next_id = 2\<rparr>"

definition example_long_table :: database where
  "example_long_table =
     \<lparr>rows = map (\<lambda>i. example_row\<lparr>ID := int i\<rparr>) [1..<102], pending = [], next_id = 102\<rparr>"

text \<open>Five rows: one updated within the last minute, one already sent, three pending and stale.\<close>

definition example_rows :: "Message list" where
  "example_rows =
     [example_row\<lparr>ID := 3\<rparr>,
      example_row\<lparr>ID := 1\<rparr>,
      example_row\<lparr>ID := 2, UpdatedAt := example_now\<rparr>,
      example_row\<lparr>ID := 4, Status := StatusSent\<rparr>,
      example_row\<lparr>ID := 5\<rparr>]"

text \<open>
  The state after a \<open>SendInTx\<close> that is given a transaction handle and a forwarding cycle
  during which the broker is down.
\<close>

definition example_reached :: database where
  "example_reached =
     snd (ForwardPendingMessages example_service (example_env True) example_now
       (snd (SendInTx example_service Tx ''orders'' ''k2'' ''p2'' example_now False example_database)))"

text \<open>
  A lock on the resource \<open>item-123\<close>, two node names as a protected sequential create
  forms them (a prefix with a random identifier before \<open>lock-\<close>), and a pass of the loop
  whose \<open>Children\<close> call succeeds.
\<close>

definition example_lock :: DistributedLock where
  "example_lock = \<lparr>path = ''/distributed_locks/item-123'', lockNode = []\<rparr>"

definition protected_first :: string where
  "protected_first = ''_c_f0e1d2c3b4a5968778695a4b3c2d1e0f-lock-0000000001''"

definition protected_second :: string where
  "protected_second = ''_c_0a1b2c3d4e5f60718293a4b5c6d7e8f9-lock-0000000002''"

definition example_round :: "string list \<Rightarrow> zk_error + bool \<Rightarrow> EventType option \<Rightarrow> zk_round" where
  "example_round children existsW wait =
     \<lparr>children_reply = Inr children, existsW_reply = existsW, wait_reply = wait\<rparr>"

section \<open>Properties of the failure handler\<close>

lemmas header_names =
  HeaderOriginalTopic_def HeaderOriginalPartition_def HeaderOriginalOffset_def
  HeaderExceptionFqcn_def HeaderExceptionMessage_def HeaderExceptionStacktrace_def
  HeaderRetryCount_def

lemma getHeaderValue_append:
  "getHeaderValue (xs @ ys) k =
     (if k \<in> Key ` set xs then getHeaderValue xs k else getHeaderValue ys k)"
  by (induction xs) auto




lemma Headers_prepareMessage:
  "Headers (prepareMessage m e n b) =
     filter (\<lambda>h. Key h \<noteq> HeaderRetryCount) (Headers m)
     @ [\<lparr>Key = HeaderRetryCount, Value = Itoa n\<rparr>,
        \<lparr>Key = HeaderOriginalTopic, Value = b\<rparr>,
        \<lparr>Key = HeaderOriginalPartition, Value = Itoa (Partition m)\<rparr>,
        \<lparr>Key = HeaderOriginalOffset, Value = Itoa (Offset m)\<rparr>]
     @ (case e of
          None \<Rightarrow> []
        | Some e \<Rightarrow>
            [\<lparr>Key = HeaderExceptionFqcn, Value = TypeName e\<rparr>,
             \<lparr>Key = HeaderExceptionMessage, Value = ErrorText e\<rparr>,
             \<lparr>Key = HeaderExceptionStacktrace, Value = ''stacktrace not implemented''\<rparr>])"
  by (simp add: prepareMessage_def)

lemma prepareMessage_retry_header:
  "getHeaderValue (Headers (prepareMessage m e n b)) HeaderRetryCount = Itoa n"
  by (auto simp add: Headers_prepareMessage getHeaderValue_append)





lemma Handle_Published_prepare:
  "Handle config m err = Published t out \<Longrightarrow>
     \<exists>n. out = prepareMessage m err n (baseTopicOf m)"
  by (auto simp add: Handle_def Let_def split: if_splits)



lemmas example_defs = example_config_def NewFailureHandler_def example_message_def example_error_def
lemmas eval_defs = Handle_def header_names isRetryable_def Atoi_def is_digit_def digit_val_def
  minInt64_def maxInt64_def maxUint64_def baseTopicOf_def Itoa_def nat_digits.simps digit_char_def Let_def
  prepareMessage_def new_retry_count_def

text \<open>
  \<open>Atoi\<close> on malformed counts: a sign is read, a byte that is no digit gives 0, and
  digits that leave the range give the bound of the type even when a byte that is no
  digit follows them.
\<close>

lemma Atoi_examples:
  "Atoi ''7'' = (7, False)"
  "Atoi ''-1'' = (- 1, False)"
  "Atoi [] = (0, True)"
  "Atoi ''12x'' = (0, True)"
  "Atoi ''99999999999999999999x'' = (maxInt64, True)"
  "Atoi ''-99999999999999999999x'' = (minInt64, True)"
  "Atoi ''9223372036854775808'' = (maxInt64, True)"
  by (simp_all add: Atoi_def is_digit_def digit_val_def maxUint64_def maxInt64_def minInt64_def)

text \<open>
  Routing for a count that is not negative, as \<open>Handle\<close> computes it: the retry topic
  with the delay of the current count and the count plus one, or the dead-letter topic
  with the count as it is.
\<close>

lemma Handle_routing:
  assumes "Enabled config"
    and "0 \<le> fst (Atoi (getHeaderValue (Headers m) HeaderRetryCount))"
  shows "Handle config m err =
     (let retryCount = fst (Atoi (getHeaderValue (Headers m) HeaderRetryCount)) in
      if isRetryable config err \<and> retryCount < int (length (RetryDelays config)) then
        Published
          (Replace [(''{topic}'', baseTopicOf m),
                    (''{delaySec}'', Itoa (RetryDelays config ! nat retryCount))]
             (RetryTopicTemplate config))
          (prepareMessage m err (retryCount + 1) (baseTopicOf m))
      else
        Published (Replace [(''{topic}'', baseTopicOf m)] (DltTopicTemplate config))
          (prepareMessage m err retryCount (baseTopicOf m)))"
  using assms by (simp add: Handle_def Let_def)

lemma Handle_example_retry:
  "Handle example_config (example_message [\<lparr>Key = ''retry-count'', Value = ''2''\<rparr>])
     (Some example_error) =
   Published ''orders.retry.120s''
     (prepareMessage (example_message [\<lparr>Key = ''retry-count'', Value = ''2''\<rparr>])
        (Some example_error) 3 ''orders'')"
  by (simp add: eval_defs example_defs)

lemma Handle_example_retry_header:
  "getHeaderValue
     (Headers (prepareMessage (example_message [\<lparr>Key = ''retry-count'', Value = ''2''\<rparr>])
        (Some example_error) 3 ''orders''))
     HeaderRetryCount = ''3''"
  by (simp add: prepareMessage_retry_header Itoa_def nat_digits.simps digit_char_def)

lemma Handle_example_exhausted:
  "Handle example_config (example_message [\<lparr>Key = ''retry-count'', Value = ''3''\<rparr>])
     (Some example_error) =
   Published ''orders.dlt''
     (prepareMessage (example_message [\<lparr>Key = ''retry-count'', Value = ''3''\<rparr>])
        (Some example_error) 3 ''orders'')"
  by (simp add: eval_defs example_defs)

text \<open>
  Claim C3: an enabled handler publishes every failed message, to the retry topic of its
  current retry count when the error is retryable and the count is below the number of
  delays, and to the dead-letter topic otherwise. For a count that is not negative this
  is \<open>Handle_routing\<close>, and the two examples of the claim are the lemmas above.
  \<open>Atoi\<close> accepts a sign, though, and a negative count is below the number of delays:
  with a retryable error the handler then indexes \<open>RetryDelays\<close> at a negative
  position and panics; no message is published.
\<close>

theorem C3_negative_retry_count_panics:
  "Handle example_config (example_message [\<lparr>Key = ''retry-count'', Value = ''-1''\<rparr>])
     (Some example_error) = IndexPanic (- 1)"
  by (simp add: eval_defs example_defs)



text \<open>
  Claim C10, as stated, fails: \<open>prepareMessage\<close> copies every incoming header but
  \<open>retry-count\<close>, so an exception header the message already carries (here from an
  earlier failure) is on the outgoing message although the error is nil.
\<close>

theorem C10_exception_header_counterexample:
  "Handle example_config
     (example_message [\<lparr>Key = ''dlt-exception-message'', Value = ''timeout''\<rparr>]) None =
   Published ''orders.dlt''
     \<lparr>Topic = [], Partition = 0, Offset = 0, MsgKey = ''k'', MsgValue = ''v'',
      Headers = [\<lparr>Key = ''dlt-exception-message'', Value = ''timeout''\<rparr>,
                 \<lparr>Key = ''retry-count'', Value = ''0''\<rparr>,
                 \<lparr>Key = ''dlt-original-topic'', Value = ''orders''\<rparr>,
                 \<lparr>Key = ''dlt-original-partition'', Value = ''3''\<rparr>,
                 \<lparr>Key = ''dlt-original-offset'', Value = ''42''\<rparr>]\<rparr>
   \<and> getHeaderValue
        (Headers (prepareMessage
           (example_message [\<lparr>Key = ''dlt-exception-message'', Value = ''timeout''\<rparr>]) None 0 ''orders''))
        HeaderExceptionMessage = ''timeout''"
  by (simp add: eval_defs example_defs)

text \<open>
  Claim C10, amended. For an enabled handler and a nil error the failure is not
  retryable, whatever the retryable set and the retry count, and the message is
  published to the dead-letter topic of its base topic. The handler adds no exception
  header: the exception headers of the outgoing message are those of the incoming
  one. The outgoing message carries the retry count unchanged and the three lineage
  headers.
\<close>

theorem C10_nil_error_dead_letter:
  assumes "Enabled config"
  shows "isRetryable config None = False
     \<and> Handle config m None =
         Published (Replace [(''{topic}'', baseTopicOf m)] (DltTopicTemplate config))
           (prepareMessage m None (fst (Atoi (getHeaderValue (Headers m) HeaderRetryCount))) (baseTopicOf m))
     \<and> exception_headers
          (Headers (prepareMessage m None (fst (Atoi (getHeaderValue (Headers m) HeaderRetryCount))) (baseTopicOf m)))
         = exception_headers (Headers m)
     \<and> getHeaderValue
          (Headers (prepareMessage m None (fst (Atoi (getHeaderValue (Headers m) HeaderRetryCount))) (baseTopicOf m)))
          HeaderRetryCount = Itoa (fst (Atoi (getHeaderValue (Headers m) HeaderRetryCount)))
     \<and> \<lparr>Key = HeaderOriginalTopic, Value = baseTopicOf m\<rparr>
          \<in> set (Headers (prepareMessage m None (fst (Atoi (getHeaderValue (Headers m) HeaderRetryCount))) (baseTopicOf m)))
     \<and> \<lparr>Key = HeaderOriginalPartition, Value = Itoa (Partition m)\<rparr>
          \<in> set (Headers (prepareMessage m None (fst (Atoi (getHeaderValue (Headers m) HeaderRetryCount))) (baseTopicOf m)))
     \<and> \<lparr>Key = HeaderOriginalOffset, Value = Itoa (Offset m)\<rparr>
          \<in> set (Headers (prepareMessage m None (fst (Atoi (getHeaderValue (Headers m) HeaderRetryCount))) (baseTopicOf m)))"
proof -
  have r: "isRetryable config None = False"
    by (simp add: isRetryable_def)
  have h: "Handle config m None =
         Published (Replace [(''{topic}'', baseTopicOf m)] (DltTopicTemplate config))
           (prepareMessage m None (fst (Atoi (getHeaderValue (Headers m) HeaderRetryCount))) (baseTopicOf m))"
    using assms by (simp add: Handle_def r Let_def)
  have e: "exception_headers (Headers (prepareMessage m None n b)) = exception_headers (Headers m)" for n b
  proof -
    have "filter (\<lambda>h. Key h = HeaderExceptionFqcn \<or> Key h = HeaderExceptionMessage
                \<or> Key h = HeaderExceptionStacktrace) (filter (\<lambda>h. Key h \<noteq> HeaderRetryCount) hs)
        = filter (\<lambda>h. Key h = HeaderExceptionFqcn \<or> Key h = HeaderExceptionMessage
                \<or> Key h = HeaderExceptionStacktrace) hs" for hs
      by (rule filter_cong [OF refl, THEN trans [OF filter_filter]] ) (auto simp add: header_names)
    then show ?thesis
      by (simp add: exception_headers_def Headers_prepareMessage) (simp add: header_names)
  qed
  show ?thesis
    using r h e by (simp add: prepareMessage_retry_header) (simp add: Headers_prepareMessage)
qed

text \<open>Witness of C10: a first failure with a nil error, on a message without headers.\<close>

theorem C10_nil_error_dead_letter_witness:
  "Enabled example_config
   \<and> Handle example_config (example_message []) None =
       Published ''orders.dlt'' (prepareMessage (example_message []) None 0 ''orders'')
   \<and> exception_headers (Headers (prepareMessage (example_message []) None 0 ''orders'')) = []"
proof -
  have en: "Enabled example_config"
    by (simp add: example_defs)
  have b: "baseTopicOf (example_message []) = ''orders''"
    by (simp add: eval_defs example_defs)
  have n: "fst (Atoi (getHeaderValue (Headers (example_message [])) HeaderRetryCount)) = 0"
    by (simp add: eval_defs example_defs)
  have t: "Replace [(''{topic}'', ''orders'')] (DltTopicTemplate example_config) = ''orders.dlt''"
    by (simp add: example_defs)
  have x: "exception_headers (Headers (example_message [])) = []"
    by (simp add: exception_headers_def example_defs)
  from C10_nil_error_dead_letter [OF en, of "example_message []"] show ?thesis
    unfolding b n t x using en by simp
qed

section \<open>Properties of the outbox\<close>

lemma apply_ops_append: "apply_ops (ops @ [op]) t = apply_op op (apply_ops ops t)"
  by (induction ops arbitrary: t) simp_all

lemma visible_exec: "visible h (exec h op d) = apply_op op (visible h d)"
  by (cases h) (simp_all add: visible_def exec_def apply_ops_append)

lemma visible_UpdateStatus:
  "visible (db s) (snd (UpdateStatus s i st rc now fails d)) =
     (if fails then visible (db s) d else apply_op (Update i st rc now) (visible (db s) d))"
  by (simp add: UpdateStatus_def visible_exec)

lemma filter_ID_Update:
  "filter (\<lambda>r. ID r = k)
     (map (\<lambda>m. if ID m = i then m\<lparr>Status := st, RetryCount := rc, UpdatedAt := now\<rparr> else m) t) =
     (if i = k
      then map (\<lambda>r. r\<lparr>Status := st, RetryCount := rc, UpdatedAt := now\<rparr>) (filter (\<lambda>r. ID r = k) t)
      else filter (\<lambda>r. ID r = k) t)"
  by (induction t) auto

lemma filter_ID_UpdateStatus_other:
  "i \<noteq> k \<Longrightarrow>
     filter (\<lambda>r. ID r = k) (visible (db s) (snd (UpdateStatus s i st rc now fails d))) =
     filter (\<lambda>r. ID r = k) (visible (db s) d)"
  by (simp add: visible_UpdateStatus filter_ID_Update)

lemma forward_loop_other:
  "k \<notin> ID ` set msgs \<Longrightarrow>
     filter (\<lambda>r. ID r = k) (visible (db s) (forward_loop s env now n msgs d)) =
     filter (\<lambda>r. ID r = k) (visible (db s) d)"
proof (induction msgs arbitrary: n d)
  case Nil
  then show ?case by simp
next
  case (Cons msg msgs)
  then have "ID msg \<noteq> k" and "k \<notin> ID ` set msgs"
    by auto
  then show ?case
    by (simp add: Cons.IH filter_ID_UpdateStatus_other)
qed

lemma forward_loop_head:
  assumes "ID msg \<notin> ID ` set msgs" and "\<not> update_fails env n"
  shows "filter (\<lambda>r. ID r = ID msg) (visible (db s) (forward_loop s env now n (msg # msgs) d)) =
     map (\<lambda>r. if write_fails env n (forward_message env msg)
               then r\<lparr>Status := StatusPending, RetryCount := int64 (RetryCount msg + 1), UpdatedAt := now\<rparr>
               else r\<lparr>Status := StatusSent, RetryCount := RetryCount msg, UpdatedAt := now\<rparr>)
       (filter (\<lambda>r. ID r = ID msg) (visible (db s) d))"
proof (cases "write_fails env n (forward_message env msg)")
  case True
  then show ?thesis
    using assms(2)
    by (simp add: forward_loop_other [OF assms(1)] visible_UpdateStatus filter_ID_Update)
next
  case False
  then show ?thesis
    using assms(2)
    by (simp add: forward_loop_other [OF assms(1)] visible_UpdateStatus filter_ID_Update)
qed

lemma forward_loop_nth:
  assumes "distinct (map ID msgs)" and "i < length msgs" and "\<not> update_fails env (n + i)"
  shows "filter (\<lambda>r. ID r = ID (msgs ! i)) (visible (db s) (forward_loop s env now n msgs d)) =
     map (\<lambda>r. if write_fails env (n + i) (forward_message env (msgs ! i))
               then r\<lparr>Status := StatusPending, RetryCount := int64 (RetryCount (msgs ! i) + 1), UpdatedAt := now\<rparr>
               else r\<lparr>Status := StatusSent, RetryCount := RetryCount (msgs ! i), UpdatedAt := now\<rparr>)
       (filter (\<lambda>r. ID r = ID (msgs ! i)) (visible (db s) d))"
  using assms
proof (induction msgs arbitrary: n i d)
  case Nil
  then show ?case by simp
next
  case (Cons msg msgs)
  have notin: "ID msg \<notin> ID ` set msgs" and dist: "distinct (map ID msgs)"
    using Cons.prems(1) by simp_all
  show ?case
  proof (cases i)
    case 0
    then show ?thesis
      using forward_loop_head [OF notin, of env n s now d] Cons.prems(3) by simp
  next
    case (Suc j)
    have j: "j < length msgs"
      using Cons.prems(2) Suc by simp
    have u: "\<not> update_fails env (Suc n + j)"
      using Cons.prems(3) Suc by simp
    have "msgs ! j \<in> set msgs"
      using j by (rule nth_mem)
    then have ne: "ID msg \<noteq> ID (msgs ! j)"
      using notin by blast
    let ?k = "ID (msgs ! j)"
    let ?d1 = "if write_fails env n (forward_message env msg)
        then snd (UpdateStatus s (ID msg) StatusPending (int64 (RetryCount msg + 1)) now (update_fails env n) d)
        else snd (UpdateStatus s (ID msg) StatusSent (RetryCount msg) now (update_fails env n) d)"
    have same: "filter (\<lambda>r. ID r = ?k) (visible (db s) ?d1) = filter (\<lambda>r. ID r = ?k) (visible (db s) d)"
      using ne by (simp add: filter_ID_UpdateStatus_other)
    have "filter (\<lambda>r. ID r = ?k) (visible (db s) (forward_loop s env now (Suc n) msgs ?d1)) =
       map (\<lambda>r. if write_fails env (Suc n + j) (forward_message env (msgs ! j))
               then r\<lparr>Status := StatusPending, RetryCount := int64 (RetryCount (msgs ! j) + 1), UpdatedAt := now\<rparr>
               else r\<lparr>Status := StatusSent, RetryCount := RetryCount (msgs ! j), UpdatedAt := now\<rparr>)
         (filter (\<lambda>r. ID r = ?k) (visible (db s) ?d1))"
      by (rule Cons.IH [OF dist j u])
    then show ?thesis
      unfolding same using Suc by simp
  qed
qed

lemma filter_ID_unique:
  "distinct (map ID t) \<Longrightarrow> m \<in> set t \<Longrightarrow> filter (\<lambda>r. ID r = ID m) t = [m]"
proof (induction t)
  case Nil
  then show ?case by simp
next
  case (Cons a t)
  have notin: "ID a \<notin> ID ` set t" and dist: "distinct (map ID t)"
    using Cons.prems(1) by simp_all
  show ?case
  proof (cases "m = a")
    case True
    have "filter (\<lambda>r. ID r = ID a) t = []"
      using notin by (simp add: filter_empty_conv image_iff) metis
    then show ?thesis
      using True by simp
  next
    case False
    then have m: "m \<in> set t"
      using Cons.prems(2) by simp
    then have "ID a \<noteq> ID m"
      using notin by blast
    then show ?thesis
      using Cons.IH [OF dist m] by simp
  qed
qed

lemma FindPendingMessages_Inr:
  "FindPendingMessages s now limit fails d = Inr batch \<Longrightarrow>
     batch = gorm_Limit limit (sort_key ID
        (filter (\<lambda>m. Status m = StatusPending \<and> UpdatedAt m < now - Minute) (visible (db s) d)))"
  by (simp add: FindPendingMessages_def split: if_splits)

lemma set_gorm_Limit: "set (gorm_Limit n xs) \<subseteq> set xs"
  by (auto simp add: gorm_Limit_def dest: in_set_takeD)

lemma distinct_map_sort_key: "distinct (map f (sort_key g xs)) = distinct (map f xs)"
  by (simp add: distinct_map)

lemma distinct_map_gorm_Limit: "distinct (map f xs) \<Longrightarrow> distinct (map f (gorm_Limit n xs))"
  by (simp add: gorm_Limit_def take_map [symmetric] distinct_take del: take_map)

lemma FindPendingMessages_distinct:
  assumes "FindPendingMessages s now limit fails d = Inr batch"
    and "distinct (map ID (visible (db s) d))"
  shows "distinct (map ID batch)"
  unfolding FindPendingMessages_Inr [OF assms(1)]
  by (intro distinct_map_gorm_Limit) (simp add: distinct_map_sort_key distinct_map_filter assms(2))

lemma FindPendingMessages_set:
  assumes "FindPendingMessages s now limit fails d = Inr batch" and "m \<in> set batch"
  shows "m \<in> set (visible (db s) d) \<and> Status m = StatusPending \<and> UpdatedAt m < now - Minute"
proof -
  let ?xs = "sort_key ID
        (filter (\<lambda>m. Status m = StatusPending \<and> UpdatedAt m < now - Minute) (visible (db s) d))"
  have "batch = gorm_Limit limit ?xs"
    using assms(1) by (rule FindPendingMessages_Inr)
  then have "set batch \<subseteq> set ?xs"
    by (simp only: set_gorm_Limit)
  with assms(2) have "m \<in> set ?xs"
    by (rule rev_subsetD)
  then show ?thesis by simp
qed

lemma FindPendingMessages_length:
  assumes "FindPendingMessages s now limit fails d = Inr batch" and "0 \<le> limit"
  shows "int (length batch) \<le> limit"
  using assms(2) unfolding FindPendingMessages_Inr [OF assms(1)]
  by (simp add: gorm_Limit_def)

lemma sorted_map_gorm_Limit:
  assumes "sorted (map f xs)"
  shows "sorted (map f (gorm_Limit n xs))"
proof (cases "n < 0")
  case True
  then show ?thesis
    using assms by (simp add: gorm_Limit_def)
next
  case False
  have "sorted (take (nat n) (map f xs))"
    using assms by (rule sorted_wrt_take)
  then have "sorted (map f (take (nat n) xs))"
    by (simp only: take_map)
  then show ?thesis
    using False by (simp only: gorm_Limit_def if_False)
qed

lemma FindPendingMessages_sorted:
  assumes "FindPendingMessages s now limit fails d = Inr batch"
  shows "sorted (map ID batch)"
  unfolding FindPendingMessages_Inr [OF assms(1)]
  by (rule sorted_map_gorm_Limit) (rule sorted_sort_key)

lemma FindPendingMessages_complete:
  assumes find: "FindPendingMessages s now limit fails d = Inr batch"
    and lim: "0 \<le> limit"
    and m: "m \<in> set (visible (db s) d)" "Status m = StatusPending" "UpdatedAt m < now - Minute"
    and out: "m \<notin> set batch"
  shows "int (length batch) = limit \<and> list_all (\<lambda>r. ID r \<le> ID m) batch"
proof -
  let ?xs = "sort_key ID
        (filter (\<lambda>m. Status m = StatusPending \<and> UpdatedAt m < now - Minute) (visible (db s) d))"
  have b: "batch = take (nat limit) ?xs"
    using lim unfolding FindPendingMessages_Inr [OF find] by (simp add: gorm_Limit_def)
  have mx: "m \<in> set ?xs"
    using m by simp
  have "?xs = take (nat limit) ?xs @ drop (nat limit) ?xs"
    by simp
  then have "set ?xs = set (take (nat limit) ?xs) \<union> set (drop (nat limit) ?xs)"
    by (metis set_append)
  with mx out b have md: "m \<in> set (drop (nat limit) ?xs)"
    by blast
  then have "nat limit < length ?xs"
    by (cases "nat limit < length ?xs") auto
  then have len: "int (length batch) = limit"
    using lim b by simp
  have "sorted (map ID (take (nat limit) ?xs @ drop (nat limit) ?xs))"
    by simp
  then have "\<forall>r \<in> set (take (nat limit) ?xs). \<forall>y \<in> set (drop (nat limit) ?xs). ID r \<le> ID y"
    unfolding map_append sorted_append by auto
  with md b have "\<forall>r \<in> set batch. ID r \<le> ID m"
    by blast
  with len show ?thesis
    by (simp add: list_all_iff)
qed

lemmas outbox_examples = example_row_def example_database_def example_service_def example_now_def
  example_env_def

lemma SendInTx_row:
  "SendInTx s tx topic key payload now False d =
     (None,
      exec (db (store s))
        (Insert \<lparr>ID = next_id d, OutTopic = topic, OutKey = key, Payload = payload,
                 Status = StatusPending, RetryCount = 0, CreatedAt = now, UpdatedAt = now\<rparr>)
        (d\<lparr>next_id := next_id d + 1\<rparr>))"
  by (simp add: SendInTx_def CreateInTx_def gorm_Create_def Let_def)

lemma SendInTx_through_store_handle:
  "db (store s) = Tx \<Longrightarrow>
     rows (tx_rollback (snd (SendInTx s tx topic key payload now fails d))) = rows d"
  by (simp add: SendInTx_def CreateInTx_def gorm_Create_def exec_def tx_rollback_def Let_def)

text \<open>
  Claim C2: the record of \<open>SendInTx\<close> is inserted through the handle \<open>tx\<close> it is given,
  so that no record is left when the caller's transaction is rolled back; it has status
  PENDING and retry count 0. The row does have that status and count, but it is not
  written through \<open>tx\<close>: the store's \<open>CreateInTx\<close> runs the insert on its own
  connection. With the store on the connection and \<open>tx\<close> an open transaction, the
  row is committed at once and is still in the table after the rollback.
\<close>

theorem C2_insert_survives_rollback:
  "tx_rollback (snd (SendInTx example_service Tx ''orders'' ''k2'' ''p2'' example_now False
      example_database)) =
   \<lparr>rows = [example_row,
            \<lparr>ID = 2, OutTopic = ''orders'', OutKey = ''k2'', Payload = ''p2'',
             Status = StatusPending, RetryCount = 0, CreatedAt = example_now,
             UpdatedAt = example_now\<rparr>],
    pending = [], next_id = 3\<rparr>"
  by (simp add: SendInTx_def CreateInTx_def gorm_Create_def exec_def tx_rollback_def
      outbox_examples Let_def)

lemma int64_in_range:
  "minInt64 \<le> x \<Longrightarrow> x \<le> maxInt64 \<Longrightarrow> int64 x = x"
  by (simp add: int64_def minInt64_def maxInt64_def)

lemma int64_wraps: "int64 (maxInt64 + 1) = minInt64"
  by (simp add: int64_def minInt64_def maxInt64_def)

lemma example_find:
  "FindPendingMessages (store example_service) example_now 100 False example_database =
     Inr [example_row]"
  by (simp add: FindPendingMessages_def outbox_examples visible_def gorm_Limit_def Minute_def)

lemma sorted_map_int_upt: "sorted (map int [a..<b])"
  by (simp add: sorted_map sorted_wrt_mono_rel [OF _ sorted_upt])

lemma example_long_find:
  "FindPendingMessages (store example_service) example_now 100 False example_long_table =
     Inr (map (\<lambda>i. example_row\<lparr>ID := int i\<rparr>) [1..<101])"
proof -
  let ?f = "\<lambda>i. example_row\<lparr>ID := int i\<rparr>"
  have v: "visible (db (store example_service)) example_long_table = map ?f [1..<102]"
    by (simp add: visible_def example_service_def example_long_table_def)
  have e: "filter (\<lambda>m. Status m = StatusPending \<and> UpdatedAt m < example_now - Minute)
      (map ?f [1..<102]) = map ?f [1..<102]"
    by (simp add: filter_map comp_def example_row_def example_now_def Minute_def)
  have "sorted (map ID (map ?f [1..<102]))"
    by (simp add: comp_def sorted_map_int_upt)
  then have o: "sort_key ID (map ?f [1..<102]) = map ?f [1..<102]"
    by (rule sort_key_id_if_sorted)
  have "take 100 [1..<102] = [1..<101]"
    by (simp add: take_upt)
  then have t: "gorm_Limit 100 (map ?f [1..<102]) = map ?f [1..<101]"
    by (simp add: gorm_Limit_def take_map)
  show ?thesis
    by (simp only: FindPendingMessages_def if_False v e o t)
qed

text \<open>
  Claim C4, as stated, fails at the largest retry count: Go's \<open>msg.RetryCount + 1\<close>
  wraps around, so after a failed publish the row holds the smallest value of the type,
  not the count plus one.
\<close>

theorem C4_retry_count_wraps_counterexample:
  "filter (\<lambda>r. ID r = 1)
     (visible Conn (snd (ForwardPendingMessages example_service (example_env True) example_now
        example_saturated))) =
     [example_row\<lparr>Status := StatusPending, RetryCount := - 9223372036854775808,
                  UpdatedAt := example_now\<rparr>]
   \<and> RetryCount (example_row\<lparr>RetryCount := maxInt64\<rparr>) + 1 = 9223372036854775808"
  by (simp add: ForwardPendingMessages_def FindPendingMessages_def UpdateStatus_def exec_def
      visible_def gorm_Limit_def Minute_def outbox_examples example_saturated_def
      forward_message_def int64_def maxInt64_def)

text \<open>
  Claim C4, amended. A forwarding cycle works on the batch \<open>FindPendingMessages\<close>
  returns for the limit 100: at most 100 records, all pending; the rows whose id is not
  in the batch are after the cycle what they were before. Let the ids of the table be
  distinct (the primary key) and let the status update of the n-th record of the batch
  reach the table. After the cycle the row with that id is the record of the batch with
  status SENT and the retry count it had, when the broker write succeeded, and with
  status PENDING and the retry count plus one, as a 64-bit \<open>int\<close> stores it, when the
  write failed: exactly the count plus one below the largest value of the type. No
  bound on the retry count enters.
\<close>

theorem C4_forward_updates:
  assumes find: "FindPendingMessages (store s) now 100 (find_fails env) d = Inr batch"
    and dist: "distinct (map ID (visible (db (store s)) d))"
    and n: "n < length batch"
    and upd: "\<not> update_fails env n"
  shows "length batch \<le> 100
     \<and> Status (batch ! n) = StatusPending
     \<and> filter (\<lambda>r. ID r = ID (batch ! n))
          (visible (db (store s)) (snd (ForwardPendingMessages s env now d))) =
         [if write_fails env n (forward_message env (batch ! n))
          then (batch ! n)\<lparr>Status := StatusPending, RetryCount := int64 (RetryCount (batch ! n) + 1),
                            UpdatedAt := now\<rparr>
          else (batch ! n)\<lparr>Status := StatusSent, RetryCount := RetryCount (batch ! n),
                            UpdatedAt := now\<rparr>]
     \<and> (minInt64 \<le> RetryCount (batch ! n) \<and> RetryCount (batch ! n) < maxInt64 \<longrightarrow>
          int64 (RetryCount (batch ! n) + 1) = RetryCount (batch ! n) + 1)
     \<and> (k \<notin> ID ` set batch \<longrightarrow>
          filter (\<lambda>r. ID r = k) (visible (db (store s)) (snd (ForwardPendingMessages s env now d))) =
          filter (\<lambda>r. ID r = k) (visible (db (store s)) d))"
proof -
  have len: "length batch \<le> 100"
    using FindPendingMessages_length [OF find] by simp
  have mem: "batch ! n \<in> set batch"
    using n by (rule nth_mem)
  have row: "batch ! n \<in> set (visible (db (store s)) d)" and st: "Status (batch ! n) = StatusPending"
    using FindPendingMessages_set [OF find mem] by simp_all
  have one: "filter (\<lambda>r. ID r = ID (batch ! n)) (visible (db (store s)) d) = [batch ! n]"
    using dist row by (rule filter_ID_unique)
  have db: "distinct (map ID batch)"
    using find dist by (rule FindPendingMessages_distinct)
  have fwd: "snd (ForwardPendingMessages s env now d) = forward_loop (store s) env now 0 batch d"
    using n by (simp add: ForwardPendingMessages_def find)
  have "filter (\<lambda>r. ID r = ID (batch ! n))
          (visible (db (store s)) (forward_loop (store s) env now 0 batch d)) =
     map (\<lambda>r. if write_fails env (0 + n) (forward_message env (batch ! n))
               then r\<lparr>Status := StatusPending, RetryCount := int64 (RetryCount (batch ! n) + 1), UpdatedAt := now\<rparr>
               else r\<lparr>Status := StatusSent, RetryCount := RetryCount (batch ! n), UpdatedAt := now\<rparr>)
       (filter (\<lambda>r. ID r = ID (batch ! n)) (visible (db (store s)) d))"
    using db n upd by (intro forward_loop_nth) simp_all
  then have updated: "filter (\<lambda>r. ID r = ID (batch ! n))
          (visible (db (store s)) (snd (ForwardPendingMessages s env now d))) =
         [if write_fails env n (forward_message env (batch ! n))
          then (batch ! n)\<lparr>Status := StatusPending, RetryCount := int64 (RetryCount (batch ! n) + 1),
                            UpdatedAt := now\<rparr>
          else (batch ! n)\<lparr>Status := StatusSent, RetryCount := RetryCount (batch ! n),
                            UpdatedAt := now\<rparr>]"
    unfolding fwd one by simp
  have exact: "minInt64 \<le> RetryCount (batch ! n) \<and> RetryCount (batch ! n) < maxInt64 \<longrightarrow>
          int64 (RetryCount (batch ! n) + 1) = RetryCount (batch ! n) + 1"
    by (simp add: int64_in_range)
  have frame: "k \<notin> ID ` set batch \<longrightarrow>
          filter (\<lambda>r. ID r = k) (visible (db (store s)) (snd (ForwardPendingMessages s env now d))) =
          filter (\<lambda>r. ID r = k) (visible (db (store s)) d)"
    unfolding fwd by (simp add: forward_loop_other)
  from len st updated exact frame show ?thesis
    by (intro conjI)
qed

text \<open>
  Witness of C4: the cycle on the example table, once with the broker up (SENT, retry
  count 0) and once with the broker down (PENDING, retry count 1); and the cycle on a
  table of 101 stale pending rows, where the batch is the rows 1 to 100 and row 101 is
  left as it is.
\<close>

theorem C4_forward_updates_witness:
  "FindPendingMessages (store example_service) example_now 100 False example_database =
     Inr [example_row]
   \<and> filter (\<lambda>r. ID r = 1)
        (visible Conn (snd (ForwardPendingMessages example_service (example_env False) example_now
           example_database))) =
       [example_row\<lparr>Status := StatusSent, RetryCount := 0, UpdatedAt := example_now\<rparr>]
   \<and> filter (\<lambda>r. ID r = 1)
        (visible Conn (snd (ForwardPendingMessages example_service (example_env True) example_now
           example_database))) =
       [example_row\<lparr>Status := StatusPending, RetryCount := 1, UpdatedAt := example_now\<rparr>]
   \<and> FindPendingMessages (store example_service) example_now 100 False example_long_table =
       Inr (map (\<lambda>i. example_row\<lparr>ID := int i\<rparr>) [1..<101])
   \<and> example_row\<lparr>ID := 101\<rparr> \<in> set (rows example_long_table)
   \<and> filter (\<lambda>r. ID r = 101)
        (visible Conn (snd (ForwardPendingMessages example_service (example_env True) example_now
           example_long_table))) =
       filter (\<lambda>r. ID r = 101) (visible Conn example_long_table)"
proof -
  have dist: "distinct (map ID (visible (db (store example_service)) example_database))"
    by (simp add: outbox_examples visible_def)
  have f: "FindPendingMessages (store example_service) example_now 100 (find_fails (example_env b))
      example_database = Inr [example_row]" for b
    using example_find by (simp add: example_env_def)
  have n: "0 < length [example_row]"
    by simp
  have u: "\<not> update_fails (example_env b) 0" for b
    by (simp add: example_env_def)
  have h: "db (store example_service) = Conn" "ID example_row = 1" "RetryCount example_row = 0"
    by (simp_all add: outbox_examples)
  have ok: "\<not> write_fails (example_env False) 0 m" and down: "write_fails (example_env True) 0 m" for m
    by (simp_all add: example_env_def)
  have one: "int64 1 = 1"
    by (simp add: int64_def)
  have small: "filter (\<lambda>r. ID r = 1)
        (visible Conn (snd (ForwardPendingMessages example_service (example_env False) example_now
           example_database))) =
       [example_row\<lparr>Status := StatusSent, RetryCount := 0, UpdatedAt := example_now\<rparr>]
   \<and> filter (\<lambda>r. ID r = 1)
        (visible Conn (snd (ForwardPendingMessages example_service (example_env True) example_now
           example_database))) =
       [example_row\<lparr>Status := StatusPending, RetryCount := 1, UpdatedAt := example_now\<rparr>]"
    using C4_forward_updates [OF f dist n u, of False] C4_forward_updates [OF f dist n u, of True]
    by (simp add: h ok down one)
  let ?f = "\<lambda>i. example_row\<lparr>ID := int i\<rparr>"
  have ldist: "distinct (map ID (visible (db (store example_service)) example_long_table))"
    by (simp add: visible_def example_service_def example_long_table_def comp_def distinct_map
        inj_on_def)
  have lf: "FindPendingMessages (store example_service) example_now 100
      (find_fails (example_env True)) example_long_table = Inr (map ?f [1..<101])"
    using example_long_find by (simp add: example_env_def)
  have ln: "0 < length (map ?f [1..<101])"
    by simp
  have out: "101 \<notin> ID ` set (map ?f [1..<101])"
    by (auto simp add: image_iff)
  have long: "filter (\<lambda>r. ID r = 101)
        (visible Conn (snd (ForwardPendingMessages example_service (example_env True) example_now
           example_long_table))) =
       filter (\<lambda>r. ID r = 101) (visible Conn example_long_table)"
    using C4_forward_updates [OF lf ldist ln u, of 101] out
    by (simp only: h) blast
  have present: "example_row\<lparr>ID := 101\<rparr> \<in> set (rows example_long_table)"
    by (simp add: example_long_table_def image_iff) (rule bexI [of _ 101], simp_all)
  from example_find small example_long_find present long show ?thesis
    by (intro conjI) (elim conjE, assumption)+
qed

text \<open>
  Claim C5, as stated for every limit, fails for a negative one: no result has at most
  \<open>-1\<close> records, and gorm drops the LIMIT clause then, so every stale pending row is
  returned.
\<close>

theorem C5_limit_counterexample:
  "FindPendingMessages (store example_service) example_now (- 1) False example_database =
     Inr [example_row]
   \<and> \<not> int (length [example_row]) \<le> - 1"
  by (simp add: FindPendingMessages_def outbox_examples visible_def gorm_Limit_def Minute_def)

text \<open>
  Claim C5, amended. For a limit that is not negative, a successful
  \<open>FindPendingMessages\<close> returns at most \<open>limit\<close> records; each is a stored record with
  status PENDING whose last update is more than one minute before the query time; the
  result is in ascending order of the identifiers; and a stored pending record that is
  that stale is returned unless the result is full with records of identifiers not
  above its own.
\<close>

theorem C5_find_pending:
  assumes find: "FindPendingMessages s now limit fails d = Inr result"
    and lim: "0 \<le> limit"
  shows "int (length result) \<le> limit
     \<and> (\<forall>m \<in> set result.
           m \<in> set (visible (db s) d) \<and> Status m = StatusPending \<and> UpdatedAt m < now - Minute)
     \<and> sorted (map ID result)
     \<and> (\<forall>m \<in> set (visible (db s) d).
           Status m = StatusPending \<and> UpdatedAt m < now - Minute \<longrightarrow>
           m \<in> set result \<or> (int (length result) = limit \<and> list_all (\<lambda>r. ID r \<le> ID m) result))"
proof -
  have a: "int (length result) \<le> limit"
    using find lim by (rule FindPendingMessages_length)
  have b: "\<forall>m \<in> set result.
           m \<in> set (visible (db s) d) \<and> Status m = StatusPending \<and> UpdatedAt m < now - Minute"
    using FindPendingMessages_set [OF find] by blast
  have c: "sorted (map ID result)"
    using find by (rule FindPendingMessages_sorted)
  have e: "\<forall>m \<in> set (visible (db s) d).
           Status m = StatusPending \<and> UpdatedAt m < now - Minute \<longrightarrow>
           m \<in> set result \<or> (int (length result) = limit \<and> list_all (\<lambda>r. ID r \<le> ID m) result)"
    using FindPendingMessages_complete [OF find lim] by blast
  from a b c e show ?thesis
    by (intro conjI)
qed

text \<open>Witness of C5: the limit 2 on the five example rows returns the rows 1 and 3.\<close>

theorem C5_find_pending_witness:
  "FindPendingMessages (store example_service) example_now 2 False
     \<lparr>rows = example_rows, pending = [], next_id = 6\<rparr> =
     Inr [example_row\<lparr>ID := 1\<rparr>, example_row\<lparr>ID := 3\<rparr>]
   \<and> (0::int) \<le> 2
   \<and> int (length [example_row\<lparr>ID := 1\<rparr>, example_row\<lparr>ID := 3\<rparr>]) \<le> 2
   \<and> sorted (map ID [example_row\<lparr>ID := 1\<rparr>, example_row\<lparr>ID := 3\<rparr>])"
proof -
  have f: "FindPendingMessages (store example_service) example_now 2 False
     \<lparr>rows = example_rows, pending = [], next_id = 6\<rparr> =
     Inr [example_row\<lparr>ID := 1\<rparr>, example_row\<lparr>ID := 3\<rparr>]"
    by (simp add: FindPendingMessages_def outbox_examples example_rows_def visible_def
        gorm_Limit_def Minute_def)
  have l: "(0::int) \<le> 2"
    by simp
  from C5_find_pending [OF f l] f l show ?thesis
    by (intro conjI) (elim conjE, assumption)+
qed

lemma apply_op_no_failed:
  "op_status_ok op \<Longrightarrow> list_all (\<lambda>m. Status m \<noteq> StatusFailed) t \<Longrightarrow>
     list_all (\<lambda>m. Status m \<noteq> StatusFailed) (apply_op op t)"
  by (cases op) (auto simp add: list_all_iff)

lemma apply_ops_no_failed:
  "list_all op_status_ok ops \<Longrightarrow> list_all (\<lambda>m. Status m \<noteq> StatusFailed) t \<Longrightarrow>
     list_all (\<lambda>m. Status m \<noteq> StatusFailed) (apply_ops ops t)"
  by (induction ops arbitrary: t) (simp_all add: apply_op_no_failed)

lemma exec_no_failed:
  "op_status_ok op \<Longrightarrow> no_failed d \<Longrightarrow> no_failed (exec h op d)"
  by (cases h) (simp_all add: no_failed_def exec_def apply_op_no_failed)

lemma next_id_no_failed: "no_failed (d\<lparr>next_id := i\<rparr>) = no_failed d"
  by (simp add: no_failed_def)

lemma SendInTx_no_failed:
  "no_failed d \<Longrightarrow> no_failed (snd (SendInTx s tx topic key payload now fails d))"
  by (simp add: SendInTx_def CreateInTx_def gorm_Create_def Let_def exec_no_failed next_id_no_failed)

lemma UpdateStatus_no_failed:
  "st \<noteq> StatusFailed \<Longrightarrow> no_failed d \<Longrightarrow> no_failed (snd (UpdateStatus s i st rc now fails d))"
  by (simp add: UpdateStatus_def exec_no_failed)

lemma forward_loop_no_failed:
  "no_failed d \<Longrightarrow> no_failed (forward_loop s env now n msgs d)"
proof (induction msgs arbitrary: n d)
  case Nil
  then show ?case by simp
next
  case (Cons msg msgs)
  have "no_failed (snd (UpdateStatus s (ID msg) StatusPending (int64 (RetryCount msg + 1)) now
      (update_fails env n) d))"
    using Cons.prems by (intro UpdateStatus_no_failed) simp_all
  moreover have "no_failed (snd (UpdateStatus s (ID msg) StatusSent (RetryCount msg) now
      (update_fails env n) d))"
    using Cons.prems by (intro UpdateStatus_no_failed) simp_all
  ultimately show ?case
    by (simp add: Cons.IH)
qed

lemma ForwardPendingMessages_no_failed:
  "no_failed d \<Longrightarrow> no_failed (snd (ForwardPendingMessages s env now d))"
  by (simp add: ForwardPendingMessages_def forward_loop_no_failed split: sum.splits)

lemma tx_commit_no_failed: "no_failed d \<Longrightarrow> no_failed (tx_commit d)"
  by (simp add: no_failed_def tx_commit_def apply_ops_no_failed)

lemma tx_rollback_no_failed: "no_failed d \<Longrightarrow> no_failed (tx_rollback d)"
  by (simp add: no_failed_def tx_rollback_def)

lemma visible_no_failed:
  "no_failed d \<Longrightarrow> list_all (\<lambda>m. Status m \<noteq> StatusFailed) (visible h d)"
  by (cases h) (simp_all add: no_failed_def visible_def apply_ops_no_failed)

lemma not_failed_iff: "st \<noteq> StatusFailed \<longleftrightarrow> st = StatusPending \<or> st = StatusSent"
  by (cases st) simp_all

text \<open>
  Claim C9. Start from a database without a FAILED row and without a pending statement
  that writes FAILED. Whatever sequence of \<open>SendInTx\<close>, \<open>ForwardPendingMessages\<close>,
  commit and rollback follows, under any replies of broker and database, no row and no
  pending statement has the status FAILED: every record a handle can see is PENDING or
  SENT.
\<close>

theorem C9_failed_never_assigned:
  assumes "no_failed d0" and "reachable d0 d"
  shows "no_failed d
     \<and> list_all (\<lambda>m. Status m = StatusPending \<or> Status m = StatusSent) (visible h d)"
proof -
  from assms(2) assms(1) have inv: "no_failed d"
  proof (induction rule: reachable.induct)
    case start
    then show ?case .
  next
    case (send d s tx topic key payload now fails)
    then show ?case by (simp add: SendInTx_no_failed)
  next
    case (forward d s env now)
    then show ?case by (simp add: ForwardPendingMessages_no_failed)
  next
    case (commit d)
    then show ?case by (simp add: tx_commit_no_failed)
  next
    case (rollback d)
    then show ?case by (simp add: tx_rollback_no_failed)
  qed
  then have "list_all (\<lambda>m. Status m \<noteq> StatusFailed) (visible h d)"
    by (rule visible_no_failed)
  then have "list_all (\<lambda>m. Status m = StatusPending \<or> Status m = StatusSent) (visible h d)"
    by (simp add: not_failed_iff)
  with inv show ?thesis ..
qed

text \<open>Witness of C9: the example state reached by a send and a failed forwarding cycle.\<close>

theorem C9_failed_never_assigned_witness:
  "no_failed example_database
   \<and> reachable example_database example_reached
   \<and> no_failed example_reached
   \<and> list_all (\<lambda>m. Status m = StatusPending \<or> Status m = StatusSent) (visible Conn example_reached)
   \<and> length (visible Conn example_reached) = 2"
proof -
  have a: "no_failed example_database"
    by (simp add: no_failed_def outbox_examples)
  have b: "reachable example_database example_reached"
    unfolding example_reached_def by (intro reachable.forward reachable.send reachable.start)
  have c: "length (visible Conn example_reached) = 2"
    by (simp add: example_reached_def ForwardPendingMessages_def FindPendingMessages_def
        SendInTx_def CreateInTx_def gorm_Create_def UpdateStatus_def exec_def visible_def
        gorm_Limit_def Minute_def outbox_examples Let_def)
  from C9_failed_never_assigned [OF a b, of Conn] a b c show ?thesis
    by (intro conjI) (elim conjE, assumption)+
qed

section \<open>Properties of the distributed lock\<close>

lemmas lock_examples = example_lock_def protected_first_def protected_second_def example_round_def

lemma Lock_loop_ErrNoNode:
  assumes "children_reply r = Inr children" and "lock_step l children = Watch prevNodePath"
    and "existsW_reply r = Inl ErrNoNode"
  shows "Lock_loop l (r # rs) = Lock_loop l rs"
  using assms by simp

lemma Lock_loop_event:
  assumes "children_reply r = Inr children" and "lock_step l children = Watch prevNodePath"
    and "existsW_reply r = Inr exists" and "wait_reply r = Some event"
  shows "Lock_loop l (r # rs) = Lock_loop l rs"
  using assms by simp

lemma Lock_loop_no_event:
  assumes "children_reply r = Inr children" and "lock_step l children = Watch prevNodePath"
    and "existsW_reply r = Inr exists" and "wait_reply r = None"
  shows "Lock_loop l (r # rs) = Some (Returns (Some LockTimeout))"
  using assms by simp

lemma Unlock_without_node:
  "lockNode l = [] \<Longrightarrow> Unlock l failure nodes = (Some NoLockToUnlock, l, nodes)"
  by (simp add: Unlock_def)

lemma Lock_create_failed:
  "Lock l (Inl err) rounds = (Some (Returns (Some (CreateFailed err))), l)"
  by (simp add: Lock_def)

lemma Lock_sets_lockNode:
  "lockNode (snd (Lock l (Inr nodePath) rounds)) = nodePath"
  by (simp add: Lock_def)

lemma Unlock_with_node:
  "lockNode l \<noteq> [] \<Longrightarrow> lockNode l \<in> set nodes \<Longrightarrow>
     Unlock l None nodes = (None, l\<lparr>lockNode := []\<rparr>, removeAll (lockNode l) nodes)"
  by (simp add: Unlock_def zk_Delete_def)

text \<open>
  What steps 2 to 4 decide, in terms of the order of the names as strings: the lock is
  acquired when the caller's name is the least of the children's names, and otherwise
  the node watched is the one with the greatest name below the caller's.
\<close>

lemma prevNodeIndex_absent:
  "my \<notin> set xs \<Longrightarrow> prevNodeIndex my xs k = - 1"
  by (induction xs arbitrary: k) auto

lemma prevNodeIndex_present:
  "my \<in> set xs \<Longrightarrow>
     \<exists>i < length xs. xs ! i = my \<and> prevNodeIndex my xs k = k + int i - 1"
proof (induction xs arbitrary: k)
  case Nil
  then show ?case by simp
next
  case (Cons x xs)
  show ?case
  proof (cases "x = my")
    case True
    then have "(x # xs) ! 0 = my \<and> prevNodeIndex my (x # xs) k = k + int 0 - 1"
      by simp
    then show ?thesis
      by (intro exI [of _ 0]) simp
  next
    case False
    then have "my \<in> set xs"
      using Cons.prems by simp
    then obtain i where i: "i < length xs" "xs ! i = my"
      "prevNodeIndex my xs (k + 1) = (k + 1) + int i - 1"
      using Cons.IH [of "k + 1"] by blast
    then have "Suc i < length (x # xs) \<and> (x # xs) ! Suc i = my
        \<and> prevNodeIndex my (x # xs) k = k + int (Suc i) - 1"
      using False by simp
    then show ?thesis
      by blast
  qed
qed

lemma sorted_hd_Min:
  fixes x :: string
  assumes "sorted (x # xs)"
  shows "x = Min (set (x # xs))"
proof -
  have le: "x \<le> y" if "y \<in> set (x # xs)" for y
  proof (cases "y = x")
    case True
    then show ?thesis by simp
  next
    case False
    then have "y \<in> set xs"
      using that by simp
    then show ?thesis
      using assms by simp
  qed
  have "Min (set (x # xs)) = x"
    by (rule Min_eqI) (simp_all add: le)
  then show ?thesis by simp
qed

lemma sort_not_Nil:
  fixes children :: "string list"
  assumes "children \<noteq> []"
  shows "sort children \<noteq> []"
proof -
  have "length (sort children) = length children"
    by simp
  then show ?thesis
    using assms by (metis length_0_conv)
qed

lemma lock_step_Acquire_iff:
  assumes "children \<noteq> []"
  shows "lock_step l children = Acquire
     \<longleftrightarrow> TrimPrefix (lockNode l) (path l @ ''/'') = Min (set children)"
proof -
  obtain x xs where xs: "sort children = x # xs"
    using sort_not_Nil [OF assms] by (cases "sort children") simp_all
  have "sorted (x # xs)" and s: "set (x # xs) = set children"
    using xs [symmetric] by simp_all
  then have m: "x = Min (set children)"
    using sorted_hd_Min [of x xs] by simp
  show ?thesis
    unfolding m [symmetric]
    by (simp add: lock_step_def xs Let_def)
qed

lemma lock_step_Watch_predecessor:
  assumes d: "distinct children"
    and mem: "TrimPrefix (lockNode l) (path l @ ''/'') \<in> set children"
    and notmin: "TrimPrefix (lockNode l) (path l @ ''/'') \<noteq> Min (set children)"
  shows "lock_step l children =
     Watch (path l @ ''/'' @
       Max {c \<in> set children. c < TrimPrefix (lockNode l) (path l @ ''/'')})"
proof -
  let ?my = "TrimPrefix (lockNode l) (path l @ ''/'')"
  let ?xs = "sort children"
  have sorted: "sorted ?xs" and dist: "distinct ?xs" and set: "set ?xs = set children"
    using d by simp_all
  have ne: "children \<noteq> []"
    using mem by auto
  obtain x xs where xs: "?xs = x # xs"
    using sort_not_Nil [OF ne] by (cases ?xs) simp_all
  have "sorted (x # xs)" "set (x # xs) = set children"
    using xs [symmetric] by simp_all
  then have "x = Min (set children)"
    using sorted_hd_Min [of x xs] by simp
  then have first: "?my \<noteq> x"
    using notmin by simp
  obtain i where i: "i < length ?xs" "?xs ! i = ?my" "prevNodeIndex ?my ?xs 0 = 0 + int i - 1"
    using prevNodeIndex_present [of ?my ?xs 0] mem set by blast
  have ipos: "0 < i"
    using i(2) first xs by (cases i) simp_all
  then obtain j where j: "i = Suc j"
    by (cases i) simp_all
  have p: "prevNodeIndex ?my ?xs 0 = int j"
    using i(3) j by simp
  have strict: "sorted_wrt (<) ?xs"
    using sorted dist by (simp add: strict_sorted_iff)
  have jlt: "j < i" and jlen: "j < length ?xs"
    using i(1) j by simp_all
  have "?xs ! j < ?xs ! i"
    using strict jlt i(1) by (rule sorted_wrt_nth_less)
  then have below: "?xs ! j < ?my"
    by (simp only: i(2))
  have "?xs ! j \<in> set ?xs"
    using jlen by (rule nth_mem)
  then have "?xs ! j \<in> set children"
    by (simp only: set)
  with below have inS: "?xs ! j \<in> {c \<in> set children. c < ?my}"
    by simp
  have upper: "y \<le> ?xs ! j" if y: "y \<in> {c \<in> set children. c < ?my}" for y
  proof -
    from y have "y \<in> set ?xs"
      by (simp only: set) simp
    then obtain k where k: "k < length ?xs" "?xs ! k = y"
      by (auto simp only: in_set_conv_nth)
    have "k < i"
    proof (rule ccontr)
      assume "\<not> k < i"
      then have "i \<le> k" by simp
      then have "?xs ! i \<le> ?xs ! k"
        using sorted k(1) by (simp add: sorted_nth_mono)
      then have "?my \<le> y"
        by (simp only: k(2) i(2))
      moreover have "y < ?my"
        using y by simp
      ultimately show False
        by (auto dest: leD)
    qed
    then have "k \<le> j"
      using j by simp
    then have "?xs ! k \<le> ?xs ! j"
      using sorted i(1) j by (simp add: sorted_nth_mono)
    then show ?thesis
      using k(2) by simp
  qed
  have "Max {c \<in> set children. c < ?my} = ?xs ! j"
    using inS upper by (intro Max_eqI) simp_all
  then show ?thesis
    using first p by (simp add: lock_step_def xs [symmetric] Let_def del: sort_key_simps) (simp add: xs)
qed

text \<open>
  Claim C1: \<open>Lock\<close> orders the sibling nodes by their sequence suffix, returns nil
  exactly when its own node is the minimum of that order, and otherwise watches the
  sibling with the greatest sequence number below its own. The code sorts the names as
  strings (the two lemmas above). Its node is created by
  \<open>CreateProtectedEphemeralSequential\<close>, so every name starts with a random
  identifier and the order of the names is not the order of the suffixes: below, the
  caller's node has sequence number 2 and a live sibling has sequence number 1, yet the
  caller's name sorts first and \<open>Lock\<close> returns nil.
\<close>

theorem C1_protected_names_out_of_order:
  "Lock example_lock (Inr (''/distributed_locks/item-123/'' @ protected_second))
     [example_round [protected_first, protected_second] (Inr True) None] =
     (Some (Returns None),
      example_lock\<lparr>lockNode := ''/distributed_locks/item-123/'' @ protected_second\<rparr>)
   \<and> sequence_suffix protected_first = 1
   \<and> sequence_suffix protected_second = 2"
proof -
  have acquired: "Lock example_lock (Inr (''/distributed_locks/item-123/'' @ protected_second))
     [example_round [protected_first, protected_second] (Inr True) None] =
     (Some (Returns None),
      example_lock\<lparr>lockNode := ''/distributed_locks/item-123/'' @ protected_second\<rparr>)"
    unfolding lock_examples by code_simp
  have first: "sequence_suffix protected_first = 1"
    by (simp add: sequence_suffix_def protected_first_def is_digit_def digit_val_def maxUint64_def)
  have second: "sequence_suffix protected_second = 2"
    by (simp add: sequence_suffix_def protected_second_def is_digit_def digit_val_def maxUint64_def)
  from acquired first second show ?thesis
    by (intro conjI)
qed

text \<open>
  Claim C7: a predecessor that no longer exists when the watch is installed is treated
  like a fired deletion notice, the loop starting over at once. When the deletion is
  notified, the loop does start over, and the lock is acquired on the next pass (first
  equation). When the predecessor is already gone, \<open>ExistsW\<close> says so through its
  boolean result, with a nil error; \<open>Lock\<close> discards the boolean and looks for the
  error \<open>ErrNoNode\<close> only, so it waits on the channel and returns the timeout error
  after 30 seconds (second equation).
\<close>

theorem C7_missing_predecessor_times_out:
  "Lock example_lock (Inr ''/distributed_locks/item-123/lock-0000000002'')
     [example_round [''lock-0000000001'', ''lock-0000000002''] (Inr True) (Some EventNodeDeleted),
      example_round [''lock-0000000002''] (Inr True) None] =
     (Some (Returns None),
      example_lock\<lparr>lockNode := ''/distributed_locks/item-123/lock-0000000002''\<rparr>)
   \<and> Lock example_lock (Inr ''/distributed_locks/item-123/lock-0000000002'')
     [example_round [''lock-0000000001'', ''lock-0000000002''] (Inr False) None,
      example_round [''lock-0000000002''] (Inr True) None] =
     (Some (Returns (Some LockTimeout)),
      example_lock\<lparr>lockNode := ''/distributed_locks/item-123/lock-0000000002''\<rparr>)"
  unfolding lock_examples by code_simp

text \<open>
  Claim C8: \<open>Unlock\<close> without a successful \<open>Lock\<close> before it, also after a \<open>Lock\<close>
  that returned an error, fails with the no-lock error and deletes no node. \<open>Lock\<close>
  stores the path of its node in \<open>lockNode\<close> before it enters the loop and leaves it
  there when it returns an error. After a \<open>Lock\<close> that timed out, \<open>Unlock\<close>
  therefore does not fail: it deletes the node and returns nil.
\<close>

theorem C8_unlock_after_timeout_deletes:
  "Lock example_lock (Inr ''/distributed_locks/item-123/lock-0000000002'')
     [example_round [''lock-0000000001'', ''lock-0000000002''] (Inr True) None] =
     (Some (Returns (Some LockTimeout)),
      example_lock\<lparr>lockNode := ''/distributed_locks/item-123/lock-0000000002''\<rparr>)
   \<and> Unlock (example_lock\<lparr>lockNode := ''/distributed_locks/item-123/lock-0000000002''\<rparr>) None
       [''/distributed_locks/item-123/lock-0000000001'',
        ''/distributed_locks/item-123/lock-0000000002''] =
     (None, example_lock, [''/distributed_locks/item-123/lock-0000000001''])"
  unfolding lock_examples by code_simp

end
